theory Spec2Isabelle
  imports Main "HOL-Library.Word" "HOL-Library.Multiset" "HOL-Library.Char_ord" "HOL-Library.List_Lexorder"
begin

chapter \<open>The model\<close>

section \<open>Varz counters: \<open>VarzMapCount\<close>\<close>

text \<open>
  \<open>map_counts_\<close> is a hash map from keys to atomic \<open>long\<close> counters.  Its iteration
  order is what \<open>GetData\<close> sees before sorting, so the map is an association list in
  iteration order; a key that is not found is emplaced with the counter 0.  Keys are
  byte strings, compared as \<open>std::string\<close> compares them (lexicographically, by
  unsigned byte).
\<close>

type_synonym long = "64 word"
type_synonym int32 = "32 word"
type_synonym Map = "(string \<times> long) list"

datatype VarzValue = NUM long | MAP "(string \<times> VarzValue) list"

datatype varz_error = Empty_varz_key

definition FromInt :: "long \<Rightarrow> VarzValue" where
  "FromInt v = NUM v"

definition ReadLockAndFindOrInsert :: "string \<Rightarrow> Map \<Rightarrow> Map" where
  "ReadLockAndFindOrInsert key map_counts =
     (if key \<in> set (map fst map_counts) then map_counts else map_counts @ [(key, 0)])"

text \<open>\<open>it->second.fetch_add(delta)\<close> and \<open>it->second.store(value)\<close> on the entry found.\<close>

definition fetch_add :: "string \<Rightarrow> long \<Rightarrow> Map \<Rightarrow> Map" where
  "fetch_add key d map_counts = map (\<lambda>(k, v). if k = key then (k, v + d) else (k, v)) map_counts"

definition store :: "string \<Rightarrow> long \<Rightarrow> Map \<Rightarrow> Map" where
  "store key x map_counts = map (\<lambda>(k, v). if k = key then (k, x) else (k, v)) map_counts"

definition IncBy :: "string \<Rightarrow> int32 \<Rightarrow> Map \<Rightarrow> varz_error + Map" where
  "IncBy key delta map_counts =
     (if key = [] then Inl Empty_varz_key
      else if delta = 0 then Inr map_counts
      else Inr (fetch_add key (scast delta) (ReadLockAndFindOrInsert key map_counts)))"

definition Set_varz :: "string \<Rightarrow> int32 \<Rightarrow> Map \<Rightarrow> varz_error + Map" where
  "Set_varz key val map_counts =
     (if key = [] then Inl Empty_varz_key
      else Inr (store key (scast val) (ReadLockAndFindOrInsert key map_counts)))"

text \<open>
  \<open>std::sort\<close> with the comparator \<open>l.first < r.first\<close>.  The entries of a map have
  pairwise different keys, so every sorting algorithm yields the same vector.
\<close>

definition GetData_entries :: "Map \<Rightarrow> (string \<times> VarzValue) list" where
  "GetData_entries map_counts = sort_key fst (map (\<lambda>(k, v). (k, FromInt v)) map_counts)"

definition GetData :: "Map \<Rightarrow> VarzValue" where
  "GetData map_counts = MAP (GetData_entries map_counts)"

text \<open>
  The states of a \<open>VarzMapCount\<close>: the empty map, changed by calls of \<open>IncBy\<close> and
  \<open>Set\<close>.  A call with an empty key logs and returns without touching the map.
\<close>

datatype varz_call = Call_IncBy string int32 | Call_Set string int32

fun apply_call :: "varz_call \<Rightarrow> Map \<Rightarrow> Map" where
  "apply_call (Call_IncBy key delta) m = (case IncBy key delta m of Inl _ \<Rightarrow> m | Inr m' \<Rightarrow> m')"
| "apply_call (Call_Set key val) m = (case Set_varz key val m of Inl _ \<Rightarrow> m | Inr m' \<Rightarrow> m')"

fun varz_calls :: "varz_call list \<Rightarrow> Map \<Rightarrow> Map" where
  "varz_calls [] m = m"
| "varz_calls (c # cs) m = varz_calls cs (apply_call c m)"


section \<open>Fiber scheduler: \<open>round_robin\<close>\<close>

text \<open>
  A \<open>fibers::context *\<close> is an address; the null pointer is 0.  The kind of the context
  at an address (\<open>ctx->is_context(t)\<close>) is read from the heap, which these functions
  take as the parameter \<open>T\<close>.  A context is ready-linked when it is in \<open>rqueue_\<close>, the
  only ready queue of the thread.  \<open>counter_\<close> is a \<open>std::size_t\<close>.  Every context is
  of one kind (main, dispatcher or worker), so \<open>is_context\<close> compares kinds.
\<close>

type_synonym fiber_context = "64 word"
type_synonym time_point = "64 word"

datatype fiber_type = main_context | dispatcher_context | worker_context

definition is_context :: "(fiber_context \<Rightarrow> fiber_type) \<Rightarrow> fiber_context \<Rightarrow> fiber_type \<Rightarrow> bool" where
  "is_context T ctx t = (T ctx = t)"

text \<open>
  The \<open>asio::steady_timer\<close>: its expiry time, the number of handlers waiting for it, and
  the number of handlers that were cancelled and are queued in the \<open>io_context\<close> to run
  with \<open>operation_aborted\<close>.  \<open>expires_at\<close> cancels every pending wait and sets the
  expiry; \<open>async_wait\<close> adds a waiting handler.
\<close>

record steady_timer =
  expiry :: time_point
  waiting :: nat
  aborted :: nat

definition expires_at :: "time_point \<Rightarrow> steady_timer \<Rightarrow> steady_timer" where
  "expires_at t tm = tm\<lparr>expiry := t, waiting := 0, aborted := aborted tm + waiting tm\<rparr>"

definition async_wait :: "steady_timer \<Rightarrow> steady_timer" where
  "async_wait tm = tm\<lparr>waiting := waiting tm + 1\<rparr>"

record round_robin =
  suspend_timer :: steady_timer
  rqueue :: "fiber_context list"
  counter :: "64 word"
  cnd_waiters :: nat

datatype assertion = BOOST_ASSERT string

definition round_robin_init :: round_robin where
  "round_robin_init =
     \<lparr>suspend_timer = \<lparr>expiry = 0, waiting = 0, aborted = 0\<rparr>, rqueue = [], counter = 0,
      cnd_waiters = 0\<rparr>"

definition awakened ::
  "(fiber_context \<Rightarrow> fiber_type) \<Rightarrow> fiber_context \<Rightarrow> round_robin \<Rightarrow> assertion + round_robin" where
  "awakened T ctx rr =
     (if ctx = 0 then Inl (BOOST_ASSERT ''nullptr != ctx'')
      else if ctx \<in> set (rqueue rr) then Inl (BOOST_ASSERT ''! ctx->ready_is_linked()'')
      else let rr1 = rr\<lparr>rqueue := rqueue rr @ [ctx]\<rparr>
           in Inr (if \<not> is_context T ctx dispatcher_context
                   then rr1\<lparr>counter := counter rr1 + 1\<rparr> else rr1))"

text \<open>\<open>pick_next\<close> reads \<open>fibers::context::active()\<close>, the parameter \<open>active\<close>.\<close>

definition pick_next ::
  "(fiber_context \<Rightarrow> fiber_type) \<Rightarrow> fiber_context \<Rightarrow> round_robin
     \<Rightarrow> assertion + (fiber_context \<times> round_robin)" where
  "pick_next T active rr =
     (case rqueue rr of
        [] \<Rightarrow> Inr (0, rr)
      | ctx # rest \<Rightarrow>
          if ctx = 0 then Inl (BOOST_ASSERT ''nullptr != ctx'')
          else if active = ctx then Inl (BOOST_ASSERT ''fibers::context::active() != ctx'')
          else let rr1 = rr\<lparr>rqueue := rest\<rparr>
               in Inr (ctx, if \<not> is_context T ctx dispatcher_context
                            then rr1\<lparr>counter := counter rr1 - 1\<rparr> else rr1))"

definition has_ready_fibers :: "round_robin \<Rightarrow> bool" where
  "has_ready_fibers rr = (0 < counter rr)"

definition time_point_max :: time_point where
  "time_point_max = 0x7FFFFFFFFFFFFFFF"

definition notify_one :: "round_robin \<Rightarrow> round_robin" where
  "notify_one rr = rr\<lparr>cnd_waiters := cnd_waiters rr - 1\<rparr>"

definition suspend_until :: "time_point \<Rightarrow> round_robin \<Rightarrow> round_robin" where
  "suspend_until abs_time rr =
     notify_one
       (if time_point_max \<noteq> abs_time
        then rr\<lparr>suspend_timer := async_wait (expires_at abs_time (suspend_timer rr))\<rparr>
        else rr)"

text \<open>\<open>notify\<close> reads the clock, the parameter \<open>now\<close>.\<close>

definition notify :: "time_point \<Rightarrow> round_robin \<Rightarrow> round_robin" where
  "notify now rr = rr\<lparr>suspend_timer := expires_at now (async_wait (suspend_timer rr))\<rparr>"

text \<open>
  The calls the fiber library makes on the scheduler, and a run of them from the
  constructed scheduler.  A failed assertion ends the run.
\<close>

datatype sched_call =
    Awakened fiber_context
  | Pick_next fiber_context
  | Suspend_until time_point
  | Notify time_point

fun do_call :: "(fiber_context \<Rightarrow> fiber_type) \<Rightarrow> sched_call \<Rightarrow> round_robin \<Rightarrow> assertion + round_robin" where
  "do_call T (Awakened ctx) rr = awakened T ctx rr"
| "do_call T (Pick_next active) rr =
     (case pick_next T active rr of Inl a \<Rightarrow> Inl a | Inr (ctx, rr') \<Rightarrow> Inr rr')"
| "do_call T (Suspend_until abs_time) rr = Inr (suspend_until abs_time rr)"
| "do_call T (Notify now) rr = Inr (notify now rr)"

fun sched_calls :: "(fiber_context \<Rightarrow> fiber_type) \<Rightarrow> sched_call list \<Rightarrow> round_robin \<Rightarrow> assertion + round_robin" where
  "sched_calls T [] rr = Inr rr"
| "sched_calls T (c # cs) rr =
     (case do_call T c rr of Inl a \<Rightarrow> Inl a | Inr rr' \<Rightarrow> sched_calls T cs rr')"

definition ready_fibers :: "(fiber_context \<Rightarrow> fiber_type) \<Rightarrow> round_robin \<Rightarrow> fiber_context list" where
  "ready_fibers T rr = filter (\<lambda>ctx. \<not> is_context T ctx dispatcher_context) (rqueue rr)"


text \<open>
  What the two assertions of \<open>awakened\<close> maintain: no context is linked twice, none is
  null, and \<open>counter_\<close> counts the ready contexts that are not the dispatcher.
\<close>

definition sched_inv :: "(fiber_context \<Rightarrow> fiber_type) \<Rightarrow> round_robin \<Rightarrow> bool" where
  "sched_inv T rr \<longleftrightarrow>
     distinct (rqueue rr) \<and> 0 \<notin> set (rqueue rr)
     \<and> counter rr = of_nat (length (ready_fibers T rr))"



section \<open>Pipeline executor: \<open>MapFiber\<close>\<close>

text \<open>
  The mapper fiber of one reactor.  \<open>popped\<close> is the sequence of records that
  \<open>record_q.Pop\<close> hands out before it reports the queue closed; \<open>map_limit\<close> is
  \<open>FLAGS_map_limit\<close> (a \<open>uint32\<close>), \<open>record_num\<close> the local \<open>uint64_t\<close>.  The state keeps
  the arguments of the calls of \<open>do_fn\<close>, in order, and the number of calls of
  \<open>this_fiber::yield\<close>.
\<close>

type_synonym uint64 = "64 word"
type_synonym uint32 = "32 word"

record map_fiber =
  record_num :: uint64
  do_fn_calls :: "string list"
  yields :: nat

fun MapFiber_loop :: "uint32 \<Rightarrow> string list \<Rightarrow> map_fiber \<Rightarrow> map_fiber" where
  "MapFiber_loop map_limit [] st = st"
| "MapFiber_loop map_limit (record # popped) st =
     (let st1 = st\<lparr>record_num := record_num st + 1\<rparr>
      in if map_limit \<noteq> 0 \<and> ucast map_limit < record_num st1
         then MapFiber_loop map_limit popped st1
         else let st2 = st1\<lparr>do_fn_calls := do_fn_calls st1 @ [record]\<rparr>;
                  st3 = st2\<lparr>record_num := record_num st2 + 1\<rparr>
              in MapFiber_loop map_limit popped
                   (if unat (record_num st3) mod 1000 = 0
                    then st3\<lparr>yields := yields st3 + 1\<rparr> else st3))"

definition MapFiber :: "uint32 \<Rightarrow> string list \<Rightarrow> map_fiber" where
  "MapFiber map_limit popped =
     MapFiber_loop map_limit popped \<lparr>record_num = 0, do_fn_calls = [], yields = 0\<rparr>"



section \<open>The ping server on \<open>io_uring\<close>\<close>

subsection \<open>\<open>URingManager\<close>, \<open>URingEvent\<close> and the ring\<close>

text \<open>
  Of the ring the model keeps the number of entries of the submission queue, the
  entries handed out by \<open>io_uring_get_sqe\<close> and not yet submitted, and the completion
  queue.  \<open>io_uring_get_sqe\<close> returns null when every entry is taken.  An
  \<open>io_uring_sqe *\<close> is the index of the entry in \<open>sq\<close>.
\<close>

type_synonym event_ptr = "64 word"

datatype sqe_opcode = IORING_OP_NOP | IORING_OP_POLL_ADD | IORING_OP_SENDMSG | IORING_OP_RECVMSG

record io_uring_sqe =
  opcode :: sqe_opcode
  sqe_fd :: int
  sqe_flags :: "8 word"
  sqe_user_data :: "64 word"


datatype failure =
    CHECK_failed string
  | LOG_FATAL string
  | bad_function_call
  | dangling_pointer

record 'cb URingEvent =
  fd :: int
  cb :: "'cb option"

record 'cb URingManager =
  sq_entries :: nat
  sq :: "io_uring_sqe list"
  storage :: "event_ptr \<rightharpoonup> 'cb URingEvent"


definition IOSQE_IO_LINK :: "8 word" where
  "IOSQE_IO_LINK = 4"


definition blank_sqe :: io_uring_sqe where
  "blank_sqe = \<lparr>opcode = IORING_OP_NOP, sqe_fd = 0, sqe_flags = 0, sqe_user_data = 0\<rparr>"

definition io_uring_queue_init :: "nat \<Rightarrow> 'cb URingManager" where
  "io_uring_queue_init entries = \<lparr>sq_entries = entries, sq = [], storage = Map.empty\<rparr>"

definition URingManager_ctor :: "'cb URingManager" where
  "URingManager_ctor = io_uring_queue_init 4096"

definition io_uring_get_sqe :: "'cb URingManager \<Rightarrow> (nat \<times> 'cb URingManager) option" where
  "io_uring_get_sqe mgr =
     (if length (sq mgr) < sq_entries mgr
      then Some (length (sq mgr), mgr\<lparr>sq := sq mgr @ [blank_sqe]\<rparr>)
      else None)"

definition GetSubmit :: "'cb URingManager \<Rightarrow> failure + (nat \<times> 'cb URingManager)" where
  "GetSubmit mgr =
     (case io_uring_get_sqe mgr of
        None \<Rightarrow> Inl (CHECK_failed ''TBD: To handle ring overflow'')
      | Some (sqe, mgr') \<Rightarrow> Inr (sqe, mgr'))"

definition on_sqe :: "nat \<Rightarrow> (io_uring_sqe \<Rightarrow> io_uring_sqe) \<Rightarrow> 'cb URingManager \<Rightarrow> 'cb URingManager" where
  "on_sqe sqe f mgr = mgr\<lparr>sq := (sq mgr)[sqe := f (sq mgr ! sqe)]\<rparr>"

definition io_uring_prep :: "sqe_opcode \<Rightarrow> int \<Rightarrow> io_uring_sqe \<Rightarrow> io_uring_sqe" where
  "io_uring_prep op fd' e = e\<lparr>opcode := op, sqe_fd := fd', sqe_flags := 0\<rparr>"

definition io_uring_sqe_set_data :: "64 word \<Rightarrow> io_uring_sqe \<Rightarrow> io_uring_sqe" where
  "io_uring_sqe_set_data d e = e\<lparr>sqe_user_data := d\<rparr>"

definition AddPollIn :: "event_ptr \<Rightarrow> 'cb URingManager \<Rightarrow> failure + 'cb URingManager" where
  "AddPollIn event mgr =
     (case storage mgr event of
        None \<Rightarrow> Inl dangling_pointer
      | Some ev \<Rightarrow>
          (case GetSubmit mgr of
             Inl f \<Rightarrow> Inl f
           | Inr (sqe, mgr1) \<Rightarrow>
               Inr (on_sqe sqe (io_uring_sqe_set_data event \<circ> io_uring_prep IORING_OP_POLL_ADD (fd ev)) mgr1)))"

text \<open>
  \<open>AssignCb\<close> allocates the event; the address that \<open>new URingEvent\<close> returns is the
  parameter \<open>event\<close>.  An empty \<open>std::function\<close> is \<open>None\<close>.
\<close>

definition AssignCb :: "event_ptr \<Rightarrow> int \<Rightarrow> 'cb option \<Rightarrow> 'cb URingManager \<Rightarrow> failure + 'cb URingManager" where
  "AssignCb event fd' f mgr =
     (if f = None then Inl (CHECK_failed ''cb'')
      else Inr (mgr\<lparr>storage := (storage mgr)(event \<mapsto> \<lparr>fd = fd', cb = f\<rparr>)\<rparr>))"


subsection \<open>\<open>URingManager::Run\<close>\<close>












subsection \<open>\<open>RedisConnection\<close>\<close>

text \<open>
  Connections live in a heap \<open>conns\<close> with the use count of their shared pointers;
  the lambda of \<open>StartPolling\<close> holds one (\<open>Handle_lambda ptr\<close>), and destroying the
  lambda releases it.  \<open>PingCommand\<close> is the type parameter \<open>'p\<close> with its \<open>Decode\<close> as a
  parameter; the buffers behind the \<open>iovec\<close>s are left out.  \<open>FLAGS_linked_ske\<close> is a
  parameter, and so is the address \<open>new URingEvent\<close> returns.
\<close>

type_synonym conn_ptr = "64 word"

datatype State = WAIT_READ | READ | WRITE

datatype CbType = Handle_lambda conn_ptr

datatype syscall = sys_shutdown int int | sys_close int

definition SHUT_RDWR :: int where
  "SHUT_RDWR = 2"

record 'p RedisConnection =
  state :: State
  cmd :: 'p
  use_count :: nat

record 'p process =
  conns :: "conn_ptr \<rightharpoonup> 'p RedisConnection"
  syscalls :: "syscall list"
  ping_qps :: nat

definition release :: "conn_ptr \<Rightarrow> 'p process \<Rightarrow> 'p process" where
  "release p u =
     (case conns u p of
        None \<Rightarrow> u
      | Some c \<Rightarrow>
          if use_count c \<le> 1 then u\<lparr>conns := (conns u)(p := None)\<rparr>
          else u\<lparr>conns := (conns u)(p \<mapsto> c\<lparr>use_count := use_count c - 1\<rparr>)\<rparr>)"

definition URingEvent_Set ::
  "event_ptr \<Rightarrow> CbType option \<Rightarrow> CbType URingManager \<times> 'p process
     \<Rightarrow> failure + CbType URingManager \<times> 'p process" where
  "URingEvent_Set event f w =
     (case storage (fst w) event of
        None \<Rightarrow> Inl dangling_pointer
      | Some ev \<Rightarrow>
          Inr ((fst w)\<lparr>storage := (storage (fst w))(event \<mapsto> ev\<lparr>cb := f\<rparr>)\<rparr>,
               (case cb ev of None \<Rightarrow> snd w | Some (Handle_lambda p) \<Rightarrow> release p (snd w))))"

definition set_state :: "conn_ptr \<Rightarrow> State \<Rightarrow> 'p process \<Rightarrow> 'p process" where
  "set_state p st u =
     (case conns u p of None \<Rightarrow> u | Some c \<Rightarrow> u\<lparr>conns := (conns u)(p \<mapsto> c\<lparr>state := st\<rparr>)\<rparr>)"

definition InitiateRead ::
  "conn_ptr \<Rightarrow> event_ptr \<Rightarrow> CbType URingManager \<times> 'p process
     \<Rightarrow> failure + CbType URingManager \<times> 'p process" where
  "InitiateRead this event w =
     (case storage (fst w) event of
        None \<Rightarrow> Inl dangling_pointer
      | Some ev \<Rightarrow>
          let socket = fd ev
          in (case GetSubmit (fst w) of
                Inl f \<Rightarrow> Inl f
              | Inr (sqe, mgr1) \<Rightarrow>
                  Inr (on_sqe sqe (io_uring_sqe_set_data event \<circ> io_uring_prep IORING_OP_RECVMSG socket) mgr1,
                       set_state this READ (snd w))))"

definition InitiateWrite ::
  "bool \<Rightarrow> conn_ptr \<Rightarrow> event_ptr \<Rightarrow> CbType URingManager \<times> 'p process
     \<Rightarrow> failure + CbType URingManager \<times> 'p process" where
  "InitiateWrite FLAGS_linked_ske this event w =
     (case storage (fst w) event of
        None \<Rightarrow> Inl dangling_pointer
      | Some ev \<Rightarrow>
          let socket = fd ev
          in (case GetSubmit (fst w) of
                Inl f \<Rightarrow> Inl f
              | Inr (sqe, mgr1) \<Rightarrow>
                  let mgr2 = on_sqe sqe (io_uring_prep IORING_OP_SENDMSG socket) mgr1
                  in if FLAGS_linked_ske
                     then (case AddPollIn event
                                  (on_sqe sqe (\<lambda>e. e\<lparr>sqe_flags := or (sqe_flags e) IOSQE_IO_LINK,
                                                     sqe_user_data := 0\<rparr>) mgr2) of
                             Inl f \<Rightarrow> Inl f
                           | Inr mgr3 \<Rightarrow> Inr (mgr3, set_state this WAIT_READ (snd w)))
                     else Inr (on_sqe sqe (io_uring_sqe_set_data event) mgr2,
                               set_state this WRITE (snd w))))"

definition Handle ::
  "bool \<Rightarrow> (int32 \<Rightarrow> 'p \<Rightarrow> bool \<times> 'p) \<Rightarrow> conn_ptr \<Rightarrow> int32 \<Rightarrow> event_ptr
     \<Rightarrow> CbType URingManager \<times> 'p process \<Rightarrow> failure + CbType URingManager \<times> 'p process" where
  "Handle FLAGS_linked_ske Decode this res event w =
     (case (storage (fst w) event, conns (snd w) this) of
        (Some ev, Some c) \<Rightarrow>
          let socket = fd ev
          in (case state c of
                WAIT_READ \<Rightarrow>
                  if \<not> 0 < sint res then Inl (CHECK_failed ''res > 0'')
                  else InitiateRead this event w
              | READ \<Rightarrow>
                  if 0 < sint res
                  then (let (decoded, cmd') = Decode res (cmd c);
                            u1 = (snd w)\<lparr>conns := (conns (snd w))(this \<mapsto> c\<lparr>cmd := cmd'\<rparr>)\<rparr>
                        in if decoded
                           then InitiateWrite FLAGS_linked_ske this event
                                  (fst w, u1\<lparr>ping_qps := ping_qps u1 + 1\<rparr>)
                           else InitiateRead this event (fst w, u1))
                  else (let u1 = (snd w)\<lparr>syscalls := syscalls (snd w) @ [sys_shutdown socket SHUT_RDWR]\<rparr>;
                            u2 = u1\<lparr>syscalls := syscalls u1 @ [sys_close socket]\<rparr>
                        in URingEvent_Set event None (fst w, u2))
              | WRITE \<Rightarrow>
                  if \<not> 0 < sint res then Inl (CHECK_failed ''res > 0'')
                  else (case AddPollIn event (fst w) of
                          Inl f \<Rightarrow> Inl f
                        | Inr mgr1 \<Rightarrow> Inr (mgr1, set_state this WAIT_READ (snd w))))
      | _ \<Rightarrow> Inl dangling_pointer)"


definition StartPolling ::
  "bool \<Rightarrow> conn_ptr \<Rightarrow> event_ptr \<Rightarrow> int \<Rightarrow> CbType URingManager \<times> 'p process
     \<Rightarrow> failure + CbType URingManager \<times> 'p process" where
  "StartPolling FLAGS_linked_ske this new_event fd' w =
     (case conns (snd w) this of
        None \<Rightarrow> Inl dangling_pointer
      | Some c \<Rightarrow>
          let u1 = (snd w)\<lparr>conns := (conns (snd w))(this \<mapsto> c\<lparr>use_count := use_count c + 1\<rparr>)\<rparr>
          in (case AssignCb new_event fd' (Some (Handle_lambda this)) (fst w) of
                Inl f \<Rightarrow> Inl f
              | Inr mgr1 \<Rightarrow>
                  (case GetSubmit mgr1 of
                     Inl f \<Rightarrow> Inl f
                   | Inr (sqe, mgr2) \<Rightarrow>
                       let mgr3 = on_sqe sqe (io_uring_prep IORING_OP_POLL_ADD fd') mgr2
                       in if FLAGS_linked_ske
                          then InitiateRead this new_event
                                 (on_sqe sqe (\<lambda>e. e\<lparr>sqe_flags := or (sqe_flags e) IOSQE_IO_LINK,
                                                    sqe_user_data := 0\<rparr>) mgr3, u1)
                          else Inr (on_sqe sqe (io_uring_sqe_set_data new_event) mgr3,
                                    set_state this WAIT_READ u1))))"


subsection \<open>A server with one connection\<close>

text \<open>
  The event at address \<open>0x1000\<close> for the socket 7, owned by the connection at
  \<open>0x2000\<close>, which only the callback of the event refers to.
\<close>

definition one_connection :: "State \<Rightarrow> CbType URingManager \<times> unit process" where
  "one_connection st =
     (\<lparr>sq_entries = 4096, sq = [],
       storage = [0x1000 \<mapsto> \<lparr>fd = 7, cb = Some (Handle_lambda 0x2000)\<rparr>]\<rparr>,
      \<lparr>conns = [0x2000 \<mapsto> \<lparr>state = st, cmd = (), use_count = 1\<rparr>], syscalls = [], ping_qps = 0\<rparr>)"

definition decode_all :: "int32 \<Rightarrow> unit \<Rightarrow> bool \<times> unit" where
  "decode_all res c = (True, c)"


section \<open>Pipeline executor: \<open>Stop\<close>, \<open>ProcessFiles\<close>, \<open>Run\<close>\<close>

subsection \<open>Channels\<close>

text \<open>
  A \<open>boost::fibers::buffered_channel\<close>, the type of the file-name queue and, wrapped, of
  the record queues: \<open>push\<close> on a closed channel reports \<open>closed\<close> and waits while the
  channel is full; \<open>pop\<close> takes the oldest element, also from a closed channel,
  reports \<open>closed\<close> when the channel is closed and empty, and waits while it is open
  and empty.
\<close>

record 'a channel =
  items :: "'a list"
  capacity :: nat
  closed :: bool

datatype 'r channel_op = success 'r | closed_status | would_block

definition new_channel :: "nat \<Rightarrow> 'a channel" where
  "new_channel n = \<lparr>items = [], capacity = n, closed = False\<rparr>"

definition channel_push :: "'a \<Rightarrow> 'a channel \<Rightarrow> 'a channel channel_op" where
  "channel_push x q =
     (if closed q then closed_status
      else if capacity q \<le> length (items q) then would_block
      else success (q\<lparr>items := items q @ [x]\<rparr>))"

definition channel_pop :: "'a channel \<Rightarrow> ('a \<times> 'a channel) channel_op" where
  "channel_pop q =
     (case items q of
        x # rest \<Rightarrow> success (x, q\<lparr>items := rest\<rparr>)
      | [] \<Rightarrow> if closed q then closed_status else would_block)"

definition channel_close :: "'a channel \<Rightarrow> 'a channel" where
  "channel_close q = q\<lparr>closed := True\<rparr>"

subsection \<open>The executor and its per-reactor state\<close>

record Input =
  name :: string
  file_spec :: "string list"
  has_format :: bool
  format_type :: nat

type_synonym FileInput = "string \<times> Input"

datatype fiber = not_a_fiber | joinable

record RawContext =
  parse_errors :: uint64
  flushes :: nat

record PerIoStruct =
  index :: nat
  map_fd :: fiber
  process_fd :: "fiber list"
  record_q :: "string channel"
  do_context :: "RawContext option"
  stop_early :: bool

definition PerIoStruct_ctor :: "nat \<Rightarrow> PerIoStruct" where
  "PerIoStruct_ctor i =
     \<lparr>index = i, map_fd = not_a_fiber, process_fd = [not_a_fiber], record_q = new_channel 256,
      do_context = None, stop_early = False\<rparr>"

record Executor =
  file_name_q :: "FileInput channel option"
  per_io :: "PerIoStruct option list"

datatype pipeline_failure =
    CHECK_fails string
  | null_dereference
  | fiber_error

text \<open>
  \<open>pool_->AwaitOnAll(f)\<close> runs \<open>f\<close> on the thread of every reactor, on its own
  \<open>per_io_\<close>, and returns when all are done.
\<close>

definition Executor_Stop :: "Executor \<Rightarrow> pipeline_failure + Executor" where
  "Executor_Stop e =
     (case file_name_q e of
        None \<Rightarrow> Inr e
      | Some q \<Rightarrow>
          let e1 = e\<lparr>file_name_q := Some (channel_close q)\<rparr>
          in if None \<in> set (per_io e1) then Inl null_dereference
             else Inr (e1\<lparr>per_io := map (map_option (\<lambda>p. p\<lparr>stop_early := True\<rparr>)) (per_io e1)\<rparr>))"

subsection \<open>\<open>ProcessFiles\<close>\<close>

text \<open>
  The worker fiber of one reactor sees the shared file-name queue and the
  \<open>PerIoStruct\<close> of its thread.  It is suspended inside \<open>pop\<close> and inside
  \<open>runner_->ProcessFile\<close>; what the other threads and fibers do meanwhile is an
  input, one \<open>turn\<close> for every pass of the loop: the main thread pushes a file, the
  worker of another reactor pops one, \<open>Stop\<close> closes the queue, the callback of
  \<open>Stop\<close> sets \<open>stop_early\<close> on this reactor.  \<open>in_pop\<close> is all that happens until \<open>pop\<close>
  returns or can no longer return; then the worker stays \<open>Blocked\<close>.  The runner's
  \<open>ProcessFile\<close> is a parameter that returns its count and the record queue as it
  leaves it.  With the turns used up the worker is \<open>Unfinished\<close>.
\<close>

datatype env = Env_push FileInput | Env_pop | Env_close | Env_stop_early

record turn =
  in_pop :: "env list"
  in_process :: "env list"

record worker =
  file_q :: "FileInput channel"
  trd_local :: PerIoStruct
  cnt :: uint64
  processed :: "FileInput list"

fun env_step :: "env \<Rightarrow> worker \<Rightarrow> worker" where
  "env_step (Env_push f) w =
     (case channel_push f (file_q w) of success q \<Rightarrow> w\<lparr>file_q := q\<rparr> | _ \<Rightarrow> w)"
| "env_step Env_pop w =
     (case channel_pop (file_q w) of success (f, q) \<Rightarrow> w\<lparr>file_q := q\<rparr> | _ \<Rightarrow> w)"
| "env_step Env_close w = w\<lparr>file_q := channel_close (file_q w)\<rparr>"
| "env_step Env_stop_early w = w\<lparr>trd_local := (trd_local w)\<lparr>stop_early := True\<rparr>\<rparr>"

datatype status = Finished | Blocked | Unfinished

fun ProcessFiles ::
  "(string \<Rightarrow> nat \<Rightarrow> string channel \<Rightarrow> uint64 \<times> string channel) \<Rightarrow> turn list \<Rightarrow> worker
     \<Rightarrow> status \<times> worker" where
  "ProcessFiles ProcessFile [] w = (if stop_early (trd_local w) then Finished else Unfinished, w)"
| "ProcessFiles ProcessFile (t # ts) w =
     (if stop_early (trd_local w) then (Finished, w)
      else
        let w1 = fold env_step (in_pop t) w
        in (case channel_pop (file_q w1) of
              would_block \<Rightarrow> (Blocked, w1)
            | closed_status \<Rightarrow> (Finished, w1)
            | success (file_input, q) \<Rightarrow>
                let (n, rq) = ProcessFile (fst file_input) (format_type (snd file_input))
                                (record_q (trd_local w1));
                    w2 = w1\<lparr>file_q := q, trd_local := (trd_local w1)\<lparr>record_q := rq\<rparr>,
                            cnt := cnt w1 + n, processed := processed w1 @ [file_input]\<rparr>
                in ProcessFiles ProcessFile ts (fold env_step (in_process t) w2)))"


subsection \<open>\<open>Run\<close> and \<open>PerIoStruct::Shutdown\<close>\<close>

text \<open>
  \<open>Run\<close> and \<open>Shutdown\<close> are followed by the trace of what they do, in the order in
  which they do it.  A step on a reactor is recorded together with what it has made
  of the \<open>per_io_\<close> of that reactor: which worker fibers and whether the mapper
  fiber can be joined, whether the record queue is closed, how often the context
  was flushed.  The close of the file-name queue is recorded with the closed flag
  of the queue after it.

  A callback given to \<open>AwaitOnAll\<close> or \<open>AwaitFiberOnAll\<close> runs on every reactor, on
  the \<open>per_io_\<close> of its thread; the call returns when all have run.  The reactors
  run at the same time: a schedule (a list of reactor numbers, each letting that
  reactor do its next step) merges their traces, and every merge comes from some
  schedule.  \<open>join\<close> on a fiber that is not joinable throws.

  \<open>Stop\<close> may close the file-name queue while the main thread enqueues.  The main
  thread looks at the queue with every \<open>push\<close> and with every \<open>is_closed()\<close>; \<open>stop\<close>
  is the number of these looks that come before the close by \<open>Stop\<close> (\<open>None\<close> when
  \<open>Stop\<close> is not called), so every look from that number on finds the queue closed.
  The workers pop the files meanwhile: the trace keeps the pushes and their status,
  not the content of the queue.
\<close>

record reactor_view =
  workers :: "fiber list"
  mapper :: fiber
  record_q_closed :: bool
  context_flushes :: "nat option"


datatype event =
    New_file_name_q
  | Operator_start
  | New_per_io nat reactor_view
  | Start_worker nat nat reactor_view
  | Create_context nat reactor_view
  | Start_mapper nat reactor_view
  | Push_file string bool
  | Read_parse_errors nat
  | Close_file_name_q bool
  | Join_worker nat nat reactor_view
  | Start_closing nat reactor_view
  | Join_mapper nat reactor_view
  | Flush nat reactor_view
  | Reset_per_io nat
  | Operator_end
  | Reset_file_name_q








definition is_closed_at :: "nat option \<Rightarrow> nat \<Rightarrow> bool" where
  "is_closed_at stop k = (case stop of None \<Rightarrow> False | Some s \<Rightarrow> s \<le> k)"

fun push_files :: "nat option \<Rightarrow> nat \<Rightarrow> string list \<Rightarrow> event list" where
  "push_files stop k [] = []"
| "push_files stop k (nm # files) =
     Push_file nm (\<not> is_closed_at stop k) # push_files stop (Suc k) files"

fun enqueue_inputs ::
  "(string \<Rightarrow> string list) \<Rightarrow> nat option \<Rightarrow> nat \<Rightarrow> Input option list \<Rightarrow> pipeline_failure + event list" where
  "enqueue_inputs ExpandGlob stop k [] = Inr []"
| "enqueue_inputs ExpandGlob stop k (input # inputs) =
     (case input of
        None \<Rightarrow> Inl (CHECK_fails ''input && input->msg().file_spec_size() > 0'')
      | Some msg \<Rightarrow>
          if file_spec msg = [] then Inl (CHECK_fails ''input && input->msg().file_spec_size() > 0'')
          else if \<not> has_format msg then Inl (CHECK_fails ''input->msg().has_format()'')
          else
            let files = concat (map ExpandGlob (file_spec msg));
                evs = push_files stop k files;
                k' = k + length files
            in if is_closed_at stop k' then Inr evs
               else (case enqueue_inputs ExpandGlob stop (Suc k') inputs of
                       Inl x \<Rightarrow> Inl x
                     | Inr evs' \<Rightarrow> Inr (evs @ evs')))"















subsection \<open>A run with two files\<close>

definition file_a :: FileInput where
  "file_a = (''a.txt'', \<lparr>name = ''in'', file_spec = [''*.txt''], has_format = True, format_type = 1\<rparr>)"

definition file_b :: FileInput where
  "file_b = (''b.txt'', \<lparr>name = ''in'', file_spec = [''*.txt''], has_format = True, format_type = 1\<rparr>)"

definition one_record_per_file :: "string \<Rightarrow> nat \<Rightarrow> string channel \<Rightarrow> uint64 \<times> string channel" where
  "one_record_per_file path fmt rq = (1, rq\<lparr>items := items rq @ [path]\<rparr>)"

definition fresh_worker :: worker where
  "fresh_worker = \<lparr>file_q = new_channel 16, trd_local = PerIoStruct_ctor 0, cnt = 0, processed = []\<rparr>"

definition numbered_files :: "string \<Rightarrow> string list" where
  "numbered_files pattern = [pattern @ ''.1'', pattern @ ''.2'']"


section \<open>The \<open>Done\<close> primitive\<close>

text \<open>
  \<open>Done\<close> is a flag under a fiber mutex with a condition variable.  One thread
  calls \<open>wait\<close>, another calls \<open>notify\<close>; each call is a sequence of steps, and a run
  is any interleaving of the steps of the two.

  \<open>wait\<close> is \<open>lock; while (!ready) cond.wait(lock); unlock\<close>.  Its steps: enter
  (\<open>W_acquire\<close>); lock the mutex (\<open>W_locked\<close>); test \<open>ready\<close>, with the mutex held
  (\<open>W_pred_true\<close> or \<open>W_pred_false\<close>); after a false test, still holding the mutex,
  call \<open>cond.wait(lock)\<close>, which releases the mutex and joins the wait queue of the
  condition variable in one step, as the library promises (\<open>W_waiting\<close>); stay
  there until a wake-up (\<open>W_woken\<close>); lock the mutex again and test again; after a
  true test, release the mutex and return.  The steps of \<open>notify\<close>: enter, lock,
  set \<open>ready\<close>, unlock, \<open>notify_one\<close> (which wakes the first waiter, if there is
  one).  A step that must wait for the mutex, or for a wake-up, is not enabled.
  A schedule names the party that moves next; a party that is not enabled does
  not move.
\<close>

datatype party = Waiter | Notifier | Spurious

datatype wait_pc =
    W_idle | W_acquire | W_locked | W_pred_false | W_waiting | W_woken | W_pred_true | W_returned

datatype notify_pc = N_idle | N_acquire | N_locked | N_set | N_unlocked | N_done

record Done =
  ready :: bool
  mutex :: "party option"
  cond :: "party list"
  wait_at :: wait_pc
  notify_at :: notify_pc

definition Done_init :: Done where
  "Done_init = \<lparr>ready = False, mutex = None, cond = [], wait_at = W_idle, notify_at = N_idle\<rparr>"

fun wait_step :: "Done \<Rightarrow> Done option" where
  "wait_step d =
     (case wait_at d of
        W_idle \<Rightarrow> Some (d\<lparr>wait_at := W_acquire\<rparr>)
      | W_acquire \<Rightarrow>
          if mutex d = None then Some (d\<lparr>mutex := Some Waiter, wait_at := W_locked\<rparr>) else None
      | W_locked \<Rightarrow> Some (d\<lparr>wait_at := (if ready d then W_pred_true else W_pred_false)\<rparr>)
      | W_pred_false \<Rightarrow>
          Some (d\<lparr>mutex := None, cond := cond d @ [Waiter], wait_at := W_waiting\<rparr>)
      | W_waiting \<Rightarrow> None
      | W_woken \<Rightarrow>
          if mutex d = None then Some (d\<lparr>mutex := Some Waiter, wait_at := W_locked\<rparr>) else None
      | W_pred_true \<Rightarrow> Some (d\<lparr>mutex := None, wait_at := W_returned\<rparr>)
      | W_returned \<Rightarrow> None)"

fun wake :: "party \<Rightarrow> Done \<Rightarrow> Done" where
  "wake Waiter d = d\<lparr>wait_at := W_woken\<rparr>"
| "wake _ d = d"

fun notify_step :: "Done \<Rightarrow> Done option" where
  "notify_step d =
     (case notify_at d of
        N_idle \<Rightarrow> Some (d\<lparr>notify_at := N_acquire\<rparr>)
      | N_acquire \<Rightarrow>
          if mutex d = None then Some (d\<lparr>mutex := Some Notifier, notify_at := N_locked\<rparr>) else None
      | N_locked \<Rightarrow> Some (d\<lparr>ready := True, notify_at := N_set\<rparr>)
      | N_set \<Rightarrow> Some (d\<lparr>mutex := None, notify_at := N_unlocked\<rparr>)
      | N_unlocked \<Rightarrow>
          (case cond d of
             [] \<Rightarrow> Some (d\<lparr>notify_at := N_done\<rparr>)
           | p # rest \<Rightarrow> Some (wake p (d\<lparr>cond := rest, notify_at := N_done\<rparr>)))
      | N_done \<Rightarrow> None)"

text \<open>
  The library may also end a wait without any notification (a spurious wake-up);
  the schedule can ask for that at any time.
\<close>

definition spurious_wake :: "Done \<Rightarrow> Done option" where
  "spurious_wake d =
     (if wait_at d = W_waiting
      then Some (d\<lparr>cond := removeAll Waiter (cond d), wait_at := W_woken\<rparr>)
      else None)"

fun party_step :: "party \<Rightarrow> Done \<Rightarrow> Done" where
  "party_step Waiter d = (case wait_step d of None \<Rightarrow> d | Some d' \<Rightarrow> d')"
| "party_step Notifier d = (case notify_step d of None \<Rightarrow> d | Some d' \<Rightarrow> d')"
| "party_step Spurious d = (case spurious_wake d of None \<Rightarrow> d | Some d' \<Rightarrow> d')"

definition interleaving :: "party list \<Rightarrow> Done" where
  "interleaving sched = fold party_step sched Done_init"

fun wait_alone :: "nat \<Rightarrow> Done \<Rightarrow> wait_pc list" where
  "wait_alone 0 d = []"
| "wait_alone (Suc n) d =
     (case wait_step d of None \<Rightarrow> [] | Some d' \<Rightarrow> wait_at d' # wait_alone n d')"

text \<open>Where the calls hold the mutex, have set the flag, have seen it set.\<close>

fun holds_mutex_w :: "wait_pc \<Rightarrow> bool" where
  "holds_mutex_w W_locked = True"
| "holds_mutex_w W_pred_false = True"
| "holds_mutex_w W_pred_true = True"
| "holds_mutex_w _ = False"

fun holds_mutex_n :: "notify_pc \<Rightarrow> bool" where
  "holds_mutex_n N_locked = True"
| "holds_mutex_n N_set = True"
| "holds_mutex_n _ = False"

fun has_set_ready :: "notify_pc \<Rightarrow> bool" where
  "has_set_ready N_set = True"
| "has_set_ready N_unlocked = True"
| "has_set_ready N_done = True"
| "has_set_ready _ = False"

fun saw_ready :: "wait_pc \<Rightarrow> bool" where
  "saw_ready W_pred_true = True"
| "saw_ready W_returned = True"
| "saw_ready _ = False"

text \<open>
  What holds in every state of every interleaving: the owner of the mutex, the flag
  and the wait queue are determined by where the two calls are, the two never hold
  the mutex together, the waiter has not seen the flag unset once it is set, and the
  waiter is not in the wait queue once \<open>notify\<close> is done.
\<close>

definition Done_inv :: "Done \<Rightarrow> bool" where
  "Done_inv d \<longleftrightarrow>
     mutex d = (if holds_mutex_w (wait_at d) then Some Waiter
                else if holds_mutex_n (notify_at d) then Some Notifier else None)
     \<and> \<not> (holds_mutex_w (wait_at d) \<and> holds_mutex_n (notify_at d))
     \<and> ready d = has_set_ready (notify_at d)
     \<and> (saw_ready (wait_at d) \<longrightarrow> has_set_ready (notify_at d))
     \<and> \<not> (wait_at d = W_pred_false \<and> has_set_ready (notify_at d))
     \<and> cond d = (if wait_at d = W_waiting then [Waiter] else [])
     \<and> \<not> (wait_at d = W_waiting \<and> notify_at d = N_done)"


chapter \<open>Properties\<close>

section \<open>\<open>VarzMapCount::GetData\<close>\<close>

lemma keys_fetch_add: "map fst (fetch_add key d m) = map fst m"
  by (induction m) (auto simp: fetch_add_def)

lemma keys_store: "map fst (store key x m) = map fst m"
  by (induction m) (auto simp: store_def)

lemma distinct_FindOrInsert:
  "distinct (map fst m) \<Longrightarrow> distinct (map fst (ReadLockAndFindOrInsert key m))"
  by (simp add: ReadLockAndFindOrInsert_def)

lemma distinct_varz_call:
  "distinct (map fst m) \<Longrightarrow> distinct (map fst (apply_call c m))"
  by (cases c)
    (simp_all add: IncBy_def Set_varz_def keys_fetch_add keys_store distinct_FindOrInsert)

lemma distinct_varz_calls:
  "distinct (map fst m) \<Longrightarrow> distinct (map fst (varz_calls cs m))"
  by (induction cs arbitrary: m) (simp_all add: distinct_varz_call)

lemma keys_entries_unchanged:
  "map fst (map (\<lambda>(k, v). (k, FromInt v)) m) = map fst m"
  by (induction m) auto

lemma mset_keys_GetData_entries:
  "mset (map fst (GetData_entries m)) = mset (map fst m)"
proof -
  have "mset (map fst (GetData_entries m)) = image_mset fst (mset (GetData_entries m))"
    by simp
  also have "\<dots> = image_mset fst (mset (map (\<lambda>(k, v). (k, FromInt v)) m))"
    by (simp add: GetData_entries_def)
  also have "\<dots> = mset (map fst (map (\<lambda>(k, v). (k, FromInt v)) m))"
    by (simp only: mset_map)
  finally show ?thesis
    by (simp only: keys_entries_unchanged)
qed

lemma sorted_GetData_entries: "sorted (map fst (GetData_entries m))"
  by (simp add: GetData_entries_def)

text \<open>
  C10.  In every state of a \<open>VarzMapCount\<close> (any sequence of \<open>IncBy\<close> and \<open>Set\<close> calls on
  the empty map), the entries returned by \<open>GetData\<close> are in strictly ascending key
  order, so no key occurs twice, their keys are exactly the keys of the map, and they
  are the entries of the map (each key with its counter) in another order.
\<close>

theorem GetData_sorted_by_key:
  "sorted_wrt (<) (map fst (GetData_entries (varz_calls cs [])))
   \<and> set (map fst (GetData_entries (varz_calls cs []))) = set (map fst (varz_calls cs []))
   \<and> mset (GetData_entries (varz_calls cs [])) = mset (map (\<lambda>(k, v). (k, FromInt v)) (varz_calls cs []))
   \<and> GetData (varz_calls cs []) = MAP (GetData_entries (varz_calls cs []))"
proof -
  let ?m = "varz_calls cs []"
  have d: "distinct (map fst ?m)"
    by (rule distinct_varz_calls) simp
  have "distinct (map fst (GetData_entries ?m))"
    using d mset_keys_GetData_entries [of ?m] by (metis mset_eq_imp_distinct_iff)
  then have s: "sorted_wrt (<) (map fst (GetData_entries ?m))"
    by (simp add: strict_sorted_iff sorted_GetData_entries)
  have k: "set (map fst (GetData_entries ?m)) = set (map fst ?m)"
    using mset_keys_GetData_entries [of ?m] by (rule mset_eq_setD)
  have e: "mset (GetData_entries ?m) = mset (map (\<lambda>(k, v). (k, FromInt v)) ?m)"
    by (simp add: GetData_entries_def)
  from s k e show ?thesis
    by (simp only: GetData_def simp_thms)
qed

section \<open>\<open>round_robin\<close>: the ready counter\<close>

lemma sched_inv_init: "sched_inv T round_robin_init"
  by (simp add: sched_inv_def round_robin_init_def ready_fibers_def)

lemma sched_inv_awakened:
  "sched_inv T rr \<Longrightarrow> awakened T ctx rr = Inr rr' \<Longrightarrow> sched_inv T rr'"
  by (auto simp: sched_inv_def awakened_def ready_fibers_def Let_def split: if_splits)

lemma sched_inv_pick_next:
  "sched_inv T rr \<Longrightarrow> pick_next T active rr = Inr (ctx, rr') \<Longrightarrow> sched_inv T rr'"
  by (auto simp: sched_inv_def pick_next_def ready_fibers_def Let_def split: list.splits if_splits)

lemma sched_inv_suspend_until: "sched_inv T rr \<Longrightarrow> sched_inv T (suspend_until t rr)"
  by (simp add: sched_inv_def suspend_until_def notify_one_def ready_fibers_def)

lemma sched_inv_notify: "sched_inv T rr \<Longrightarrow> sched_inv T (notify t rr)"
  by (simp add: sched_inv_def notify_def ready_fibers_def)

lemma sched_inv_do_call:
  "sched_inv T rr \<Longrightarrow> do_call T c rr = Inr rr' \<Longrightarrow> sched_inv T rr'"
  by (cases c)
    (auto simp: sched_inv_awakened sched_inv_suspend_until sched_inv_notify
      split: sum.splits prod.splits dest: sched_inv_pick_next)

lemma sched_inv_sched_calls:
  "sched_inv T rr \<Longrightarrow> sched_calls T cs rr = Inr rr' \<Longrightarrow> sched_inv T rr'"
  by (induction cs arbitrary: rr) (auto split: sum.splits dest: sched_inv_do_call)

lemma nonnull_distinct_length:
  fixes xs :: "64 word list"
  assumes "distinct xs" "0 \<notin> set xs"
  shows "length xs < 2 ^ 64"
proof -
  have "set xs \<subseteq> UNIV - {0}" using assms by auto
  then have "card (set xs) \<le> card (UNIV - {0 :: 64 word})"
    by (intro card_mono) auto
  also have "\<dots> = 2 ^ 64 - 1"
    by (simp add: card_Diff_singleton card_word)
  finally show ?thesis
    using assms(1) by (simp add: distinct_card)
qed

lemma sched_inv_unat:
  assumes "sched_inv T rr"
  shows "unat (counter rr) = length (ready_fibers T rr)"
proof -
  have "length (ready_fibers T rr) \<le> length (rqueue rr)"
    by (simp add: ready_fibers_def)
  also have "\<dots> < 2 ^ 64"
    using assms by (intro nonnull_distinct_length) (auto simp: sched_inv_def)
  finally have "length (ready_fibers T rr) < 2 ^ 64" .
  moreover have "counter rr = of_nat (length (ready_fibers T rr))"
    using assms by (simp add: sched_inv_def)
  ultimately show ?thesis
    by (simp add: unat_of_nat)
qed

text \<open>
  C7.  After any sequence of scheduler calls on the constructed scheduler that fails no
  assertion, \<open>counter_\<close> is the number of contexts in the ready queue that are not the
  dispatcher (as a number, without wrap-around), and \<open>has_ready_fibers\<close> is true
  exactly when some context in the ready queue is not the dispatcher.
\<close>

theorem ready_counter_counts_ready_fibers:
  assumes "sched_calls T cs round_robin_init = Inr rr"
  shows "unat (counter rr) = length (ready_fibers T rr)
    \<and> (has_ready_fibers rr \<longleftrightarrow> (\<exists>ctx \<in> set (rqueue rr). \<not> is_context T ctx dispatcher_context))"
proof -
  have inv: "sched_inv T rr"
    using sched_inv_init assms by (rule sched_inv_sched_calls)
  then have u: "unat (counter rr) = length (ready_fibers T rr)"
    by (rule sched_inv_unat)
  have "has_ready_fibers rr \<longleftrightarrow> 0 < unat (counter rr)"
    by (simp add: has_ready_fibers_def word_less_nat_alt)
  also have "\<dots> \<longleftrightarrow> ready_fibers T rr \<noteq> []"
    by (simp add: u)
  also have "\<dots> \<longleftrightarrow> (\<exists>ctx \<in> set (rqueue rr). \<not> is_context T ctx dispatcher_context)"
    by (auto simp: ready_fibers_def filter_empty_conv)
  finally show ?thesis using u by simp
qed

theorem ready_counter_witness:
  "sched_calls (\<lambda>c. if c = 1 then dispatcher_context else worker_context)
      [Awakened 1, Awakened 2, Awakened 3, Pick_next 9, Pick_next 9] round_robin_init
    = Inr (round_robin_init\<lparr>rqueue := [3], counter := 1\<rparr>)
   \<and> unat (counter (round_robin_init\<lparr>rqueue := [3], counter := 1\<rparr>)) = 1"
  using ready_counter_counts_ready_fibers
    [of "\<lambda>c. if c = 1 then dispatcher_context else worker_context"
        "[Awakened 1, Awakened 2, Awakened 3, Pick_next 9, Pick_next 9]"
        "round_robin_init\<lparr>rqueue := [3], counter := 1\<rparr>"]
  by (simp add: awakened_def pick_next_def is_context_def round_robin_init_def ready_fibers_def)


section \<open>\<open>round_robin::suspend_until\<close>\<close>

lemma suspend_until_arms:
  "abs_time \<noteq> time_point_max \<Longrightarrow>
     suspend_timer (suspend_until abs_time rr) =
       \<lparr>expiry = abs_time, waiting = 1,
        aborted = aborted (suspend_timer rr) + waiting (suspend_timer rr)\<rparr>"
  by (simp add: suspend_until_def notify_one_def async_wait_def expires_at_def)

lemma suspend_until_always_rearms:
  "abs_time \<noteq> time_point_max \<Longrightarrow>
     aborted (suspend_timer (suspend_until abs_time (suspend_until abs_time rr)))
       = aborted (suspend_timer (suspend_until abs_time rr)) + 1"
  by (simp add: suspend_until_arms)

text \<open>
  C1.  \<open>suspend_until\<close> called twice with the same finite deadline 1000 on the
  constructed scheduler: the first call arms the timer (one waiting handler, nothing
  cancelled); the second call is not a no-op on the timer, it cancels the handler that
  was waiting (one aborted handler is queued) and arms the timer again.
\<close>

theorem suspend_until_same_deadline_rearms:
  "suspend_timer (suspend_until 1000 round_robin_init)
     = \<lparr>expiry = 1000, waiting = 1, aborted = 0\<rparr>
   \<and> suspend_timer (suspend_until 1000 (suspend_until 1000 round_robin_init))
     = \<lparr>expiry = 1000, waiting = 1, aborted = 1\<rparr>
   \<and> suspend_until 1000 (suspend_until 1000 round_robin_init)
     \<noteq> suspend_until 1000 round_robin_init"
  by (simp add: suspend_until_def notify_one_def async_wait_def expires_at_def
      round_robin_init_def time_point_max_def)


section \<open>\<open>MapFiber\<close> and \<open>map_limit\<close>\<close>

lemma unat_succ: "unat (x :: 64 word) + 1 < 2 ^ 64 \<Longrightarrow> unat (x + 1) = unat x + 1"
  by (simp add: unat_word_ariths)

lemma limit_less_iff:
  "(ucast (l :: 32 word) < (x :: 64 word)) \<longleftrightarrow> unat l < unat x"
proof -
  have "unat l < 2 ^ 32" using unsigned_less [of l, where ?'a = nat] by simp
  then have "unat (ucast l :: 64 word) = unat l"
    by (simp add: unsigned_ucast_eq take_bit_nat_eq_self)
  then show ?thesis
    by (simp add: word_less_nat_alt)
qed

lemma MapFiber_loop_skip:
  "map_limit \<noteq> 0 \<Longrightarrow> unat map_limit \<le> unat (record_num st)
     \<Longrightarrow> unat (record_num st) + length popped < 2 ^ 64
     \<Longrightarrow> do_fn_calls (MapFiber_loop map_limit popped st) = do_fn_calls st
       \<and> yields (MapFiber_loop map_limit popped st) = yields st
       \<and> unat (record_num (MapFiber_loop map_limit popped st)) = unat (record_num st) + length popped"
proof (induction popped arbitrary: st)
  case Nil
  then show ?case by simp
next
  case (Cons r popped)
  have u: "unat (record_num st + 1) = unat (record_num st) + 1"
    using Cons.prems(3) by (intro unat_succ) simp
  have lt: "ucast map_limit < record_num st + 1"
    using Cons.prems(2) by (simp add: limit_less_iff u)
  have "do_fn_calls (MapFiber_loop map_limit popped (st\<lparr>record_num := record_num st + 1\<rparr>))
          = do_fn_calls (st\<lparr>record_num := record_num st + 1\<rparr>)
       \<and> yields (MapFiber_loop map_limit popped (st\<lparr>record_num := record_num st + 1\<rparr>))
          = yields (st\<lparr>record_num := record_num st + 1\<rparr>)
       \<and> unat (record_num (MapFiber_loop map_limit popped (st\<lparr>record_num := record_num st + 1\<rparr>)))
          = unat (record_num (st\<lparr>record_num := record_num st + 1\<rparr>)) + length popped"
    using Cons.prems by (intro Cons.IH) (simp_all add: u)
  then show ?case
    using Cons.prems(1) lt by (simp add: Let_def u)
qed

lemma MapFiber_loop_calls:
  "map_limit \<noteq> 0 \<Longrightarrow> unat (record_num st) = 2 * k
     \<Longrightarrow> 2 * k + 2 * length popped < 2 ^ 64
     \<Longrightarrow> do_fn_calls (MapFiber_loop map_limit popped st)
         = do_fn_calls st @ take ((unat map_limit + 1) div 2 - k) popped"
proof (induction popped arbitrary: st k)
  case Nil
  then show ?case by simp
next
  case (Cons r popped)
  let ?st1 = "st\<lparr>record_num := record_num st + 1\<rparr>"
  have u1: "unat (record_num st + 1) = 2 * k + 1"
    using Cons.prems(2,3) unat_succ [of "record_num st"] by simp
  have u2: "unat (record_num st + 1 + 1) = 2 * k + 2"
    using Cons.prems(3) u1 unat_succ [of "record_num st + 1"] by simp
  show ?case
  proof (cases "ucast map_limit < record_num st + 1")
    case True
    then have le: "unat map_limit \<le> unat (record_num ?st1)"
      by (simp add: limit_less_iff)
    have "do_fn_calls (MapFiber_loop map_limit popped ?st1) = do_fn_calls ?st1"
      using Cons.prems(1,3) le u1 MapFiber_loop_skip [of map_limit ?st1 popped] by simp
    moreover have "(unat map_limit + 1) div 2 - k = 0"
      using True by (simp add: limit_less_iff u1)
    ultimately show ?thesis
      using True Cons.prems(1) by (simp add: Let_def)
  next
    case False
    then have ge: "2 * k + 1 \<le> unat map_limit"
      by (simp add: limit_less_iff u1)
    define st3 where "st3 =
       (let st1 = st\<lparr>record_num := record_num st + 1\<rparr>;
            st2 = st1\<lparr>do_fn_calls := do_fn_calls st1 @ [r]\<rparr>;
            st3 = st2\<lparr>record_num := record_num st2 + 1\<rparr>
        in if unat (record_num st3) mod 1000 = 0 then st3\<lparr>yields := yields st3 + 1\<rparr> else st3)"
    have r3: "unat (record_num st3) = 2 * Suc k" and c3: "do_fn_calls st3 = do_fn_calls st @ [r]"
      using u2 by (simp_all add: st3_def Let_def)
    have step: "MapFiber_loop map_limit (r # popped) st = MapFiber_loop map_limit popped st3"
      using False by (simp add: Let_def st3_def)
    have "do_fn_calls (MapFiber_loop map_limit popped st3)
            = do_fn_calls st3 @ take ((unat map_limit + 1) div 2 - Suc k) popped"
      using Cons.prems(1,3) r3 by (intro Cons.IH) simp_all
    moreover have "(unat map_limit + 1) div 2 - k = Suc ((unat map_limit + 1) div 2 - Suc k)"
      using ge by arith
    ultimately show ?thesis
      by (simp only: step) (simp add: c3)
  qed
qed

lemma MapFiber_calls:
  "map_limit \<noteq> 0 \<Longrightarrow> 2 * length popped < 2 ^ 64
     \<Longrightarrow> do_fn_calls (MapFiber map_limit popped) = take ((unat map_limit + 1) div 2) popped"
  using MapFiber_loop_calls [of map_limit "\<lparr>record_num = 0, do_fn_calls = [], yields = 0\<rparr>" 0 popped]
  by (simp add: MapFiber_def)

lemma MapFiber_no_limit:
  "do_fn_calls (MapFiber_loop 0 popped st) = do_fn_calls st @ popped"
  by (induction popped arbitrary: st) (simp_all add: Let_def)


text \<open>
  C2.  With \<open>map_limit = 5\<close> the mapper of a reactor that pops 50 records calls the
  user function on the first 3 of them only, since \<open>record_num\<close> is incremented twice
  for every record that is mapped: two reactors with 50 records each make 6 calls
  and not 10, and 94 records are skipped.  A reactor that pops just 5 records maps 3.
\<close>

theorem MapFiber_map_limit_5_maps_3:
  "do_fn_calls (MapFiber 5 (replicate 50 ''a'')) = [''a'', ''a'', ''a'']
   \<and> do_fn_calls (MapFiber 5 (replicate 50 ''b'')) = [''b'', ''b'', ''b'']
   \<and> length (do_fn_calls (MapFiber 5 (replicate 50 ''a'')))
       + length (do_fn_calls (MapFiber 5 (replicate 50 ''b''))) = 6
   \<and> do_fn_calls (MapFiber 5 [''1'', ''2'', ''3'', ''4'', ''5'']) = [''1'', ''2'', ''3'']"
  by (simp add: MapFiber_calls numeral_3_eq_3)

section \<open>\<open>URingManager::GetSubmit\<close> on a full ring\<close>

text \<open>
  A manager as constructed (4096 entries) with 4096 entries handed out and not
  submitted: \<open>GetSubmit\<close> does not wait for room, its \<open>CHECK\<close> fails.
\<close>

theorem GetSubmit_full_ring_aborts:
  "GetSubmit ((URingManager_ctor :: CbType URingManager)\<lparr>sq := replicate 4096 blank_sqe\<rparr>)
     = Inl (CHECK_failed ''TBD: To handle ring overflow'')"
  by (simp add: GetSubmit_def io_uring_get_sqe_def URingManager_ctor_def io_uring_queue_init_def)

text \<open>
  C3, as the code has it.  When the submission ring is exhausted, that is when
  \<open>io_uring_get_sqe\<close> returns null because every entry of the ring is taken, \<open>GetSubmit\<close>
  fails its \<open>CHECK\<close> (``TBD: To handle ring overflow'') and the process aborts; while
  an entry is free it returns the next one.
\<close>

theorem GetSubmit_ring_overflow:
  "(io_uring_get_sqe mgr = None \<longrightarrow> GetSubmit mgr = Inl (CHECK_failed ''TBD: To handle ring overflow''))
   \<and> (io_uring_get_sqe mgr = None \<longleftrightarrow> sq_entries mgr \<le> length (sq mgr))
   \<and> (length (sq mgr) < sq_entries mgr \<longrightarrow>
        GetSubmit mgr = Inr (length (sq mgr), mgr\<lparr>sq := sq mgr @ [blank_sqe]\<rparr>))"
  by (auto simp: GetSubmit_def io_uring_get_sqe_def)

theorem GetSubmit_ring_overflow_witness:
  "io_uring_get_sqe ((URingManager_ctor :: CbType URingManager)\<lparr>sq := replicate 4096 blank_sqe\<rparr>) = None
   \<and> GetSubmit ((URingManager_ctor :: CbType URingManager)\<lparr>sq := replicate 4096 blank_sqe\<rparr>)
       = Inl (CHECK_failed ''TBD: To handle ring overflow'')
   \<and> length (sq (URingManager_ctor :: CbType URingManager)) < sq_entries (URingManager_ctor :: CbType URingManager)
   \<and> GetSubmit (URingManager_ctor :: CbType URingManager)
       = Inr (0, URingManager_ctor\<lparr>sq := [blank_sqe]\<rparr>)"
  using GetSubmit_ring_overflow [of "(URingManager_ctor :: CbType URingManager)\<lparr>sq := replicate 4096 blank_sqe\<rparr>"]
    GetSubmit_ring_overflow [of "URingManager_ctor :: CbType URingManager"]
  by (simp add: io_uring_get_sqe_def URingManager_ctor_def io_uring_queue_init_def)


section \<open>\<open>URingManager::Run\<close>: the drain loop\<close>






section \<open>\<open>RedisConnection::Handle\<close>: errors while reading\<close>

text \<open>
  C6.  A completion with a result \<open>\<le> 0\<close> delivered to a connection in state \<open>READ\<close>,
  through the event whose callback holds the connection: \<open>Handle\<close> does not fail; it
  calls \<open>shutdown(socket, SHUT_RDWR)\<close> and then \<open>close(socket)\<close>, clears the callback
  of the event and so releases its reference to the connection, which is destroyed
  when that was the last one; the submission queue is as before, no read or write
  was prepared.
\<close>

theorem Handle_READ_error_closes:
  assumes "storage (fst w) event = Some ev" and "cb ev = Some (Handle_lambda this)"
    and "conns (snd w) this = Some c" and "state c = READ" and "sint res \<le> 0"
  shows "Handle FLAGS_linked_ske Decode this res event w
      = Inr ((fst w)\<lparr>storage := (storage (fst w))(event \<mapsto> ev\<lparr>cb := None\<rparr>)\<rparr>,
             release this
               ((snd w)\<lparr>syscalls := syscalls (snd w) @ [sys_shutdown (fd ev) SHUT_RDWR, sys_close (fd ev)]\<rparr>))
    \<and> sq ((fst w)\<lparr>storage := (storage (fst w))(event \<mapsto> ev\<lparr>cb := None\<rparr>)\<rparr>) = sq (fst w)
    \<and> (use_count c \<le> 1 \<longrightarrow>
         conns (release this
               ((snd w)\<lparr>syscalls := syscalls (snd w) @ [sys_shutdown (fd ev) SHUT_RDWR, sys_close (fd ev)]\<rparr>))
           this = None)"
  using assms by (simp add: Handle_def URingEvent_Set_def release_def Let_def)

theorem Handle_READ_error_closes_witness:
  "Handle False decode_all 0x2000 (- 104) 0x1000 (one_connection READ)
     = Inr (\<lparr>sq_entries = 4096, sq = [], storage = [0x1000 \<mapsto> \<lparr>fd = 7, cb = None\<rparr>]\<rparr>,
            \<lparr>conns = Map.empty, syscalls = [sys_shutdown 7 2, sys_close 7], ping_qps = 0\<rparr>)"
  using Handle_READ_error_closes
    [of "one_connection READ" "0x1000" "\<lparr>fd = 7, cb = Some (Handle_lambda 0x2000)\<rparr>" "0x2000"
        "\<lparr>state = READ, cmd = (), use_count = 1\<rparr>" "- 104" False decode_all]
  by (simp add: one_connection_def release_def SHUT_RDWR_def)


section \<open>\<open>Stop\<close> and the worker fibers\<close>

lemma env_step_keeps_flag:
  "stop_early (trd_local w) \<Longrightarrow> stop_early (trd_local (env_step e w))"
  by (cases e) (auto split: channel_op.splits)

lemma fold_env_step_keeps_flag:
  "stop_early (trd_local w) \<Longrightarrow> stop_early (trd_local (fold env_step evs w))"
  by (induction evs arbitrary: w) (simp_all add: env_step_keeps_flag)

lemma fold_env_step_sets_flag:
  "Env_stop_early \<in> set evs \<Longrightarrow> stop_early (trd_local (fold env_step evs w))"
proof (induction evs arbitrary: w)
  case Nil
  then show ?case by simp
next
  case (Cons e evs)
  show ?case
  proof (cases "e = Env_stop_early")
    case True
    then show ?thesis by (simp add: fold_env_step_keeps_flag)
  next
    case False
    with Cons show ?thesis by simp
  qed
qed

lemma env_step_processed: "processed (env_step e w) = processed w"
  by (cases e) (auto split: channel_op.splits)

lemma fold_env_step_processed: "processed (fold env_step evs w) = processed w"
  by (induction evs arbitrary: w) (simp_all add: env_step_processed)

lemma ProcessFiles_terminal:
  "fst (ProcessFiles P ts w) \<noteq> Unfinished \<Longrightarrow> ProcessFiles P (ts @ ts') w = ProcessFiles P ts w"
proof (induction ts arbitrary: w)
  case Nil
  then have "stop_early (trd_local w)" by (simp split: if_splits)
  then show ?case by (cases ts') simp_all
next
  case (Cons t ts)
  then show ?case
    by (auto simp: Let_def split: channel_op.splits prod.splits if_splits)
qed

lemma ProcessFiles_processed_bound:
  "length (processed (snd (ProcessFiles P ts w))) \<le> length (processed w) + length ts"
proof (induction ts arbitrary: w)
  case Nil
  then show ?case by simp
next
  case (Cons t ts)
  show ?case
  proof (cases "stop_early (trd_local w)")
    case True
    then show ?thesis by simp
  next
    case False
    let ?w1 = "fold env_step (in_pop t) w"
    show ?thesis
    proof (cases "channel_pop (file_q ?w1)")
      case (success r)
      obtain f q where r: "r = (f, q)" by (cases r)
      obtain n rq where p: "P (fst f) (format_type (snd f)) (record_q (trd_local ?w1)) = (n, rq)"
        by (cases "P (fst f) (format_type (snd f)) (record_q (trd_local ?w1))")
      let ?w2 = "?w1\<lparr>file_q := q, trd_local := (trd_local ?w1)\<lparr>record_q := rq\<rparr>,
                    cnt := cnt ?w1 + n, processed := processed ?w1 @ [f]\<rparr>"
      have "length (processed (snd (ProcessFiles P ts (fold env_step (in_process t) ?w2))))
              \<le> length (processed (fold env_step (in_process t) ?w2)) + length ts"
        by (rule Cons.IH)
      then show ?thesis
        using False success r p by (simp add: fold_env_step_processed Let_def)
    next
      case closed_status
      then show ?thesis using False by (simp add: fold_env_step_processed)
    next
      case would_block
      then show ?thesis using False by (simp add: fold_env_step_processed)
    qed
  qed
qed

lemma ProcessFiles_after_flag:
  "Env_stop_early \<in> set (in_pop t) \<union> set (in_process t)
     \<Longrightarrow> fst (ProcessFiles P (ts @ [t]) w) \<noteq> Unfinished"
proof (induction ts arbitrary: w)
  case Nil
  show ?case
  proof (cases "stop_early (trd_local w)")
    case True
    then show ?thesis by simp
  next
    case False
    let ?w1 = "fold env_step (in_pop t) w"
    show ?thesis
    proof (cases "channel_pop (file_q ?w1)")
      case (success r)
      obtain f q where r: "r = (f, q)" by (cases r)
      obtain n rq where p: "P (fst f) (format_type (snd f)) (record_q (trd_local ?w1)) = (n, rq)"
        by (cases "P (fst f) (format_type (snd f)) (record_q (trd_local ?w1))")
      let ?w2 = "?w1\<lparr>file_q := q, trd_local := (trd_local ?w1)\<lparr>record_q := rq\<rparr>,
                    cnt := cnt ?w1 + n, processed := processed ?w1 @ [f]\<rparr>"
      have "stop_early (trd_local (fold env_step (in_process t) ?w2))"
      proof (cases "Env_stop_early \<in> set (in_pop t)")
        case True
        then have "stop_early (trd_local ?w1)" by (rule fold_env_step_sets_flag)
        then have "stop_early (trd_local ?w2)" by simp
        then show ?thesis by (rule fold_env_step_keeps_flag)
      next
        case False
        with Nil have "Env_stop_early \<in> set (in_process t)" by simp
        then show ?thesis by (rule fold_env_step_sets_flag)
      qed
      then show ?thesis
        using False success r p by (simp add: Let_def)
    next
      case closed_status
      then show ?thesis using False by simp
    next
      case would_block
      then show ?thesis using False by simp
    qed
  qed
next
  case (Cons t' ts)
  from Cons.IH [OF Cons.prems] show ?case
    by (auto simp: Let_def split: channel_op.splits prod.splits)
qed

text \<open>
  While the file-name queue exists and every reactor has its \<open>per_io_\<close>, \<open>Stop\<close>
  closes the file-name queue and sets \<open>stop_early\<close> on every reactor.  A worker that finds the flag set at the head of its loop returns
  without popping or processing a file.  When the flag is set during some pass of
  the loop (while the worker is inside \<open>pop\<close> or inside \<open>ProcessFile\<close>), whatever happens
  later changes nothing: the worker has returned or stays blocked in that \<open>pop\<close>, it
  takes part in no later pass, and it has processed at most one file for each pass
  up to and including this one.
\<close>

theorem Stop_stops_workers:
  "(file_name_q e = Some q \<and> None \<notin> set (per_io e) \<longrightarrow>
      Executor_Stop e = Inr (e\<lparr>file_name_q := Some (q\<lparr>closed := True\<rparr>),
                      per_io := map (map_option (\<lambda>p. p\<lparr>stop_early := True\<rparr>)) (per_io e)\<rparr>))
   \<and> (stop_early (trd_local w0) \<longrightarrow> ProcessFiles P ts0 w0 = (Finished, w0))
   \<and> (Env_stop_early \<in> set (in_pop t) \<union> set (in_process t) \<longrightarrow>
        ProcessFiles P (ts @ t # ts') w = ProcessFiles P (ts @ [t]) w
        \<and> fst (ProcessFiles P (ts @ [t]) w) \<noteq> Unfinished
        \<and> length (processed (snd (ProcessFiles P (ts @ t # ts') w)))
            \<le> length (processed w) + length ts + 1)"
proof (intro conjI impI)
  assume "file_name_q e = Some q \<and> None \<notin> set (per_io e)"
  then show "Executor_Stop e = Inr (e\<lparr>file_name_q := Some (q\<lparr>closed := True\<rparr>),
                      per_io := map (map_option (\<lambda>p. p\<lparr>stop_early := True\<rparr>)) (per_io e)\<rparr>)"
    by (simp add: Executor_Stop_def channel_close_def)
next
  assume "stop_early (trd_local w0)"
  then show "ProcessFiles P ts0 w0 = (Finished, w0)"
    by (cases ts0) simp_all
next
  assume a: "Env_stop_early \<in> set (in_pop t) \<union> set (in_process t)"
  then show u: "fst (ProcessFiles P (ts @ [t]) w) \<noteq> Unfinished"
    by (rule ProcessFiles_after_flag)
  from ProcessFiles_terminal [OF u, of ts']
  show eq: "ProcessFiles P (ts @ t # ts') w = ProcessFiles P (ts @ [t]) w"
    by simp
  show "length (processed (snd (ProcessFiles P (ts @ t # ts') w))) \<le> length (processed w) + length ts + 1"
    using ProcessFiles_processed_bound [of P "ts @ [t]" w] by (simp add: eq)
qed


theorem Stop_stops_workers_witness:
  "Executor_Stop \<lparr>file_name_q = Some (new_channel 16), per_io = [Some (PerIoStruct_ctor 0), Some (PerIoStruct_ctor 1)]\<rparr>
     = Inr \<lparr>file_name_q = Some ((new_channel 16)\<lparr>closed := True\<rparr>),
            per_io = [Some ((PerIoStruct_ctor 0)\<lparr>stop_early := True\<rparr>),
                      Some ((PerIoStruct_ctor 1)\<lparr>stop_early := True\<rparr>)]\<rparr>
   \<and> ProcessFiles one_record_per_file [\<lparr>in_pop = [Env_push file_a], in_process = []\<rparr>]
        (fresh_worker\<lparr>trd_local := (PerIoStruct_ctor 0)\<lparr>stop_early := True\<rparr>\<rparr>)
     = (Finished, fresh_worker\<lparr>trd_local := (PerIoStruct_ctor 0)\<lparr>stop_early := True\<rparr>\<rparr>)
   \<and> ProcessFiles one_record_per_file
        [\<lparr>in_pop = [Env_push file_a, Env_push file_b], in_process = [Env_close, Env_stop_early]\<rparr>,
         \<lparr>in_pop = [], in_process = []\<rparr>] fresh_worker
     = (Finished,
        \<lparr>file_q = \<lparr>items = [file_b], capacity = 16, closed = True\<rparr>,
         trd_local = (PerIoStruct_ctor 0)
            \<lparr>record_q := \<lparr>items = [''a.txt''], capacity = 256, closed = False\<rparr>, stop_early := True\<rparr>,
         cnt = 1, processed = [file_a]\<rparr>)"
proof -
  have 1: "file_name_q \<lparr>file_name_q = Some (new_channel 16),
              per_io = [Some (PerIoStruct_ctor 0), Some (PerIoStruct_ctor 1)]\<rparr> = Some (new_channel 16)
      \<and> None \<notin> set (per_io \<lparr>file_name_q = Some (new_channel 16),
              per_io = [Some (PerIoStruct_ctor 0), Some (PerIoStruct_ctor 1)]\<rparr>)"
    by simp
  have 2: "stop_early (trd_local (fresh_worker\<lparr>trd_local := (PerIoStruct_ctor 0)\<lparr>stop_early := True\<rparr>\<rparr>))"
    by simp
  have 3: "Env_stop_early \<in> set (in_pop \<lparr>in_pop = [Env_push file_a, Env_push file_b], in_process = [Env_close, Env_stop_early]\<rparr>)
       \<union> set (in_process \<lparr>in_pop = [Env_push file_a, Env_push file_b], in_process = [Env_close, Env_stop_early]\<rparr>)"
    by simp
  have 4: "ProcessFiles one_record_per_file
        [\<lparr>in_pop = [Env_push file_a, Env_push file_b], in_process = [Env_close, Env_stop_early]\<rparr>] fresh_worker
     = (Finished,
        \<lparr>file_q = \<lparr>items = [file_b], capacity = 16, closed = True\<rparr>,
         trd_local = (PerIoStruct_ctor 0)
            \<lparr>record_q := \<lparr>items = [''a.txt''], capacity = 256, closed = False\<rparr>, stop_early := True\<rparr>,
         cnt = 1, processed = [file_a]\<rparr>)"
    by (simp add: fresh_worker_def PerIoStruct_ctor_def new_channel_def channel_push_def
        channel_pop_def channel_close_def one_record_per_file_def file_a_def file_b_def Let_def)
  from Stop_stops_workers
    [of "\<lparr>file_name_q = Some (new_channel 16), per_io = [Some (PerIoStruct_ctor 0), Some (PerIoStruct_ctor 1)]\<rparr>"
      "new_channel 16"
      "fresh_worker\<lparr>trd_local := (PerIoStruct_ctor 0)\<lparr>stop_early := True\<rparr>\<rparr>"
      one_record_per_file "[\<lparr>in_pop = [Env_push file_a], in_process = []\<rparr>]"
      "\<lparr>in_pop = [Env_push file_a, Env_push file_b], in_process = [Env_close, Env_stop_early]\<rparr>"
      "[]" "[\<lparr>in_pop = [], in_process = []\<rparr>]" fresh_worker] 1 2 3 4
  show ?thesis
    by simp
qed



text \<open>
  C8.  \<open>Stop\<close> called during a run while the reactors have no \<open>per_io_\<close>: \<open>Run\<close> has
  created the file-name queue and not yet run the callback that creates \<open>per_io_\<close>
  on the reactors, or it has reset every \<open>per_io_\<close> at the end of the shutdown and
  not yet reset the queue.  The test \<open>if (file_name_q_)\<close> passes, the queue is
  closed, and the callback \<open>per_io_->stop_early = true\<close> dereferences a null pointer
  on the reactor: no flag is set and \<open>Stop\<close> does not return.
\<close>

theorem Stop_null_per_io:
  "Executor_Stop (\<lparr>file_name_q = None, per_io = [None, None]\<rparr>
                    \<lparr>file_name_q := Some (new_channel 16)\<rparr>) = Inl null_dereference
   \<and> Executor_Stop \<lparr>file_name_q = Some (channel_close (new_channel 16)), per_io = [None, None]\<rparr>
       = Inl null_dereference"
  by (simp add: Executor_Stop_def)


section \<open>The order of shutdown in \<open>Run\<close>\<close>























text \<open>
  \<open>Stop\<close> between two inputs: it closes the queue after the main thread has read
  \<open>is_closed()\<close> for the first input (the third look) and before the first push of
  the second.  Both files of the first input are pushed with success, both pushes
  of the second report \<open>closed\<close>.
\<close>

lemma enqueue_inputs_stop_between_inputs:
  "enqueue_inputs numbered_files (Some 3) 0 [Some (snd file_a), Some (snd file_b)]
     = Inr [Push_file ''*.txt.1'' True, Push_file ''*.txt.2'' True,
            Push_file ''*.txt.1'' False, Push_file ''*.txt.2'' False]"
  by (simp add: numbered_files_def file_a_def file_b_def is_closed_at_def)


section \<open>\<open>Done\<close>: no lost wake-up\<close>

lemma Done_inv_init: "Done_inv Done_init"
  by (simp add: Done_inv_def Done_init_def)

lemma Done_inv_wait_step: "Done_inv d \<Longrightarrow> wait_step d = Some d' \<Longrightarrow> Done_inv d'"
  by (cases "wait_at d"; cases "notify_at d"; clarsimp simp: Done_inv_def)

lemma Done_inv_notify_step: "Done_inv d \<Longrightarrow> notify_step d = Some d' \<Longrightarrow> Done_inv d'"
  by (cases "wait_at d"; cases "notify_at d"; clarsimp simp: Done_inv_def)

lemma Done_inv_spurious_wake: "Done_inv d \<Longrightarrow> spurious_wake d = Some d' \<Longrightarrow> Done_inv d'"
  by (cases "wait_at d"; cases "notify_at d"; clarsimp simp: Done_inv_def spurious_wake_def)

lemma Done_inv_party_step: "Done_inv d \<Longrightarrow> Done_inv (party_step p d)"
  by (cases p)
    (auto split: option.splits
      dest: Done_inv_wait_step Done_inv_notify_step Done_inv_spurious_wake
      simp del: wait_step.simps notify_step.simps)

lemma Done_inv_fold: "Done_inv d \<Longrightarrow> Done_inv (fold party_step sched d)"
  by (induction sched arbitrary: d) (simp_all add: Done_inv_party_step)

lemma Done_inv_interleaving: "Done_inv (interleaving sched)"
  unfolding interleaving_def by (rule Done_inv_fold) (rule Done_inv_init)

text \<open>
  C9.  In every interleaving of one call of \<open>wait\<close> and one call of \<open>notify\<close>,
  spurious wake-ups included: \<open>wait\<close> has returned only if \<open>ready\<close> is set; once
  \<open>notify\<close> is done the waiter is neither suspended in the condition variable nor
  about to suspend after a test that found the flag unset, and, unless it has
  returned already, it runs on its own to its return without joining the wait
  queue; and when \<open>notify\<close> is done before \<open>wait\<close> is entered, \<open>wait\<close> runs through lock,
  test and unlock to its return.
\<close>

theorem Done_no_lost_wakeup:
  "(wait_at (interleaving sched) = W_returned \<longrightarrow> ready (interleaving sched))
   \<and> (notify_at (interleaving sched) = N_done \<longrightarrow>
        wait_at (interleaving sched) \<noteq> W_waiting
        \<and> wait_at (interleaving sched) \<noteq> W_pred_false
        \<and> (wait_at (interleaving sched) \<noteq> W_returned \<longrightarrow>
             wait_step (interleaving sched) \<noteq> None
             \<and> wait_alone 4 (interleaving sched) \<noteq> []
             \<and> last (wait_alone 4 (interleaving sched)) = W_returned
             \<and> W_waiting \<notin> set (wait_alone 4 (interleaving sched)))
        \<and> (wait_at (interleaving sched) = W_idle \<longrightarrow>
             wait_alone 4 (interleaving sched) = [W_acquire, W_locked, W_pred_true, W_returned]))"
proof -
  define d where "d = interleaving sched"
  have inv: "Done_inv d"
    unfolding d_def by (rule Done_inv_interleaving)
  have 1: "wait_at d = W_returned \<longrightarrow> ready d"
    using inv by (cases "wait_at d"; simp add: Done_inv_def)
  have 2: "notify_at d = N_done \<longrightarrow> wait_at d \<noteq> W_waiting"
    using inv unfolding Done_inv_def by blast
  have 5: "notify_at d = N_done \<longrightarrow> wait_at d \<noteq> W_pred_false"
    using inv by (cases "wait_at d"; cases "notify_at d"; simp add: Done_inv_def)
  have 3: "notify_at d = N_done \<longrightarrow> wait_at d \<noteq> W_returned \<longrightarrow>
      wait_step d \<noteq> None \<and> wait_alone 4 d \<noteq> [] \<and> last (wait_alone 4 d) = W_returned
      \<and> W_waiting \<notin> set (wait_alone 4 d)"
    using inv by (cases "wait_at d"; cases "notify_at d"; simp add: Done_inv_def numeral_eq_Suc)
  have 4: "notify_at d = N_done \<longrightarrow> wait_at d = W_idle \<longrightarrow>
             wait_alone 4 d = [W_acquire, W_locked, W_pred_true, W_returned]"
    using inv by (cases "wait_at d"; cases "notify_at d"; simp add: Done_inv_def numeral_eq_Suc)
  from 1 2 3 4 5 show ?thesis
    unfolding d_def by blast
qed

theorem Done_no_lost_wakeup_witness:
  "interleaving [Notifier, Notifier, Notifier, Notifier, Notifier]
     = \<lparr>ready = True, mutex = None, cond = [], wait_at = W_idle, notify_at = N_done\<rparr>
   \<and> wait_alone 4 (interleaving [Notifier, Notifier, Notifier, Notifier, Notifier])
       = [W_acquire, W_locked, W_pred_true, W_returned]
   \<and> interleaving [Waiter, Waiter, Waiter, Notifier, Notifier, Waiter, Notifier, Notifier,
          Notifier, Notifier, Waiter, Waiter, Waiter]
     = \<lparr>ready = True, mutex = None, cond = [], wait_at = W_returned, notify_at = N_done\<rparr>
   \<and> interleaving [Waiter, Waiter, Waiter, Notifier, Notifier]
     = \<lparr>ready = False, mutex = Some Waiter, cond = [], wait_at = W_pred_false, notify_at = N_acquire\<rparr>
   \<and> interleaving [Waiter, Waiter, Waiter, Waiter, Spurious, Notifier, Notifier, Notifier,
          Notifier, Notifier, Notifier]
     = \<lparr>ready = True, mutex = None, cond = [], wait_at = W_woken, notify_at = N_done\<rparr>
   \<and> wait_alone 4 (interleaving [Waiter, Waiter, Waiter, Waiter, Spurious, Notifier, Notifier,
          Notifier, Notifier, Notifier, Notifier])
       = [W_locked, W_pred_true, W_returned]"
proof -
  have a: "interleaving [Notifier, Notifier, Notifier, Notifier, Notifier]
     = \<lparr>ready = True, mutex = None, cond = [], wait_at = W_idle, notify_at = N_done\<rparr>"
    by (simp add: interleaving_def Done_init_def)
  have b: "interleaving [Waiter, Waiter, Waiter, Notifier, Notifier, Waiter, Notifier, Notifier,
          Notifier, Notifier, Waiter, Waiter, Waiter]
     = \<lparr>ready = True, mutex = None, cond = [], wait_at = W_returned, notify_at = N_done\<rparr>"
    by (simp add: interleaving_def Done_init_def)
  have c: "interleaving [Waiter, Waiter, Waiter, Notifier, Notifier]
     = \<lparr>ready = False, mutex = Some Waiter, cond = [], wait_at = W_pred_false, notify_at = N_acquire\<rparr>"
    by (simp add: interleaving_def Done_init_def)
  have e: "interleaving [Waiter, Waiter, Waiter, Waiter, Spurious, Notifier, Notifier, Notifier,
          Notifier, Notifier, Notifier]
     = \<lparr>ready = True, mutex = None, cond = [], wait_at = W_woken, notify_at = N_done\<rparr>"
    by (simp add: interleaving_def Done_init_def spurious_wake_def)
  from Done_no_lost_wakeup [of "[Notifier, Notifier, Notifier, Notifier, Notifier]"]
  have "wait_alone 4 (interleaving [Notifier, Notifier, Notifier, Notifier, Notifier])
       = [W_acquire, W_locked, W_pred_true, W_returned]"
    by (simp only: a) simp
  moreover from Done_no_lost_wakeup
    [of "[Waiter, Waiter, Waiter, Notifier, Notifier, Waiter, Notifier, Notifier,
          Notifier, Notifier, Waiter, Waiter, Waiter]"]
  have "ready (interleaving [Waiter, Waiter, Waiter, Notifier, Notifier, Waiter, Notifier, Notifier,
          Notifier, Notifier, Waiter, Waiter, Waiter])"
    by (simp only: b) simp
  moreover from Done_no_lost_wakeup
    [of "[Waiter, Waiter, Waiter, Waiter, Spurious, Notifier, Notifier, Notifier,
          Notifier, Notifier, Notifier]"]
  have "last (wait_alone 4 (interleaving [Waiter, Waiter, Waiter, Waiter, Spurious, Notifier,
          Notifier, Notifier, Notifier, Notifier, Notifier])) = W_returned"
    by (simp only: e) simp
  moreover have "wait_alone 4 \<lparr>ready = True, mutex = None, cond = [], wait_at = W_woken, notify_at = N_done\<rparr>
       = [W_locked, W_pred_true, W_returned]"
    by (simp add: numeral_eq_Suc)
  ultimately show ?thesis
    using a b c e by simp
qed


end
